theory Spec2Isabelle
  imports Main "HOL-Library.Multiset"
begin

section \<open>Data model\<close>

text \<open>
  The replies of the device are element trees. An element has a tag, a text that may be
  absent (Python \<open>None\<close>) and its child elements in document order. Strings are ASCII
  byte strings.
\<close>

datatype xml = Element (tag: string) (text_of: "string option") (children: "xml list")

text \<open>The exceptions the functions of \<open>get_infos.py\<close> can raise on a reply.\<close>

datatype py_error =
    AttributeError
  | IndexError
  | ValueError
  | TypeError string
  | UnboundLocalError

text \<open>
  What one session with the device hands to the functions: the \<open>ifd_style\<close> fact and the
  reply to each remote call the source makes (for the interface the caller names). The
  XPath query on the reply for \<open>lo0.0\<close> is evaluated by the XML library; its node list is
  taken as it comes back.
\<close>

record device =
  ifd_style :: string
  get_interface_information :: xml
  get_ethernet_switching_interface_information :: xml
  get_config :: xml
  loopback_xpath :: "xml list"

section \<open>Element tree operations\<close>

text \<open>\<open>elem.iter(t)\<close>: the element itself and its descendants carrying tag \<open>t\<close>, in document order.\<close>

fun iter :: "string \<Rightarrow> xml \<Rightarrow> xml list" where
  "iter t (Element tg tx cs) =
     (if tg = t then [Element tg tx cs] else []) @ concat (map (iter t) cs)"

text \<open>\<open>elem.find(t)\<close>: the first child with tag \<open>t\<close>, or \<open>None\<close>.\<close>

definition find_elem :: "string \<Rightarrow> xml \<Rightarrow> xml option" where
  "find_elem t e = List.find (\<lambda>c. tag c = t) (children e)"

text \<open>\<open>elem.find('a/b')\<close>: the first \<open>b\<close> child of an \<open>a\<close> child, or \<open>None\<close>.\<close>

definition find_path :: "string \<Rightarrow> string \<Rightarrow> xml \<Rightarrow> xml option" where
  "find_path a b e =
     (case concat (map (\<lambda>c. filter (\<lambda>d. tag d = b) (children c))
                       (filter (\<lambda>c. tag c = a) (children e))) of
        [] \<Rightarrow> None
      | x # _ \<Rightarrow> Some x)"

text \<open>\<open>found.text\<close> where \<open>found\<close> may be \<open>None\<close>: reading \<open>.text\<close> of \<open>None\<close> raises.\<close>

definition text_attr :: "xml option \<Rightarrow> py_error + string option" where
  "text_attr found = (case found of None \<Rightarrow> Inl AttributeError | Some e \<Rightarrow> Inr (text_of e))"

section \<open>String operations\<close>

text \<open>\<open>s.split(c)\<close> for a one-character separator: never empty, \<open>''.split(c) == ['']\<close>.\<close>

fun split :: "char \<Rightarrow> string \<Rightarrow> string list" where
  "split c [] = [[]]"
| "split c (x # xs) =
     (if x = c then [] # split c xs
      else (case split c xs of [] \<Rightarrow> [[x]] | w # ws \<Rightarrow> (x # w) # ws))"

text \<open>\<open>t.split(c)\<close> where \<open>t\<close> may be \<open>None\<close>.\<close>

definition split_attr :: "char \<Rightarrow> string option \<Rightarrow> py_error + string list" where
  "split_attr c t = (case t of None \<Rightarrow> Inl AttributeError | Some s \<Rightarrow> Inr (split c s))"

text \<open>\<open>xs[i]\<close> for \<open>i \<ge> 0\<close>, and \<open>xs[-i]\<close> for \<open>i > 0\<close>.\<close>

definition getitem :: "'a list \<Rightarrow> nat \<Rightarrow> py_error + 'a" where
  "getitem xs i = (if i < length xs then Inr (xs ! i) else Inl IndexError)"

definition getitem_neg :: "'a list \<Rightarrow> nat \<Rightarrow> py_error + 'a" where
  "getitem_neg xs i =
     (if 0 < i \<and> i \<le> length xs then Inr (xs ! (length xs - i)) else Inl IndexError)"

definition isspace :: "char \<Rightarrow> bool" where
  "isspace c = (c \<in> set [CHR '' '', CHR 0x09, CHR 0x0A, CHR 0x0B, CHR 0x0C, CHR 0x0D])"

definition strip :: "string \<Rightarrow> string" where
  "strip s = rev (dropWhile isspace (rev (dropWhile isspace s)))"

definition isdigit :: "char \<Rightarrow> bool" where
  "isdigit c = (c \<in> set ''0123456789'')"

definition digit_value :: "char \<Rightarrow> nat" where
  "digit_value c = of_char c - 48"

definition digits_value :: "string \<Rightarrow> nat" where
  "digits_value ds = foldl (\<lambda>a c. 10 * a + digit_value c) 0 ds"

text \<open>
  \<open>int(s)\<close> on a string: surrounding whitespace, an optional sign, at least one decimal
  digit and nothing else; anything else is a \<open>ValueError\<close>.
\<close>

definition int_of_digits :: "string \<Rightarrow> py_error + int" where
  "int_of_digits ds =
     (if ds \<noteq> [] \<and> list_all isdigit ds then Inr (int (digits_value ds)) else Inl ValueError)"

definition py_int :: "string \<Rightarrow> py_error + int" where
  "py_int s =
     (case strip s of
        [] \<Rightarrow> Inl ValueError
      | c # r \<Rightarrow>
          if c = CHR ''-'' then
            (case int_of_digits r of Inl e \<Rightarrow> Inl e | Inr v \<Rightarrow> Inr (- v))
          else if c = CHR ''+'' then int_of_digits r
          else int_of_digits (c # r))"

text \<open>\<open>int(t)\<close> where \<open>t\<close> may be \<open>None\<close>.\<close>

definition py_int_attr :: "string option \<Rightarrow> py_error + int" where
  "py_int_attr t =
     (case t of
        None \<Rightarrow>
          Inl (TypeError (''int() argument must be a string or a number, not ''
                          @ [CHR 0x27] @ ''NoneType'' @ [CHR 0x27]))
      | Some s \<Rightarrow> py_int s)"

text \<open>Sequencing of steps that may raise.\<close>

definition bind :: "py_error + 'a \<Rightarrow> ('a \<Rightarrow> py_error + 'b) \<Rightarrow> py_error + 'b" where
  "bind m f = (case m of Inl e \<Rightarrow> Inl e | Inr v \<Rightarrow> f v)"

section \<open>Extraction of used identifiers\<close>

text \<open>
  The field normalisations of the source. \<open>unit_text\<close> is
  \<open>item.find('name').text.split('.')[1].strip()\<close> and \<open>vlan_text\<close> is
  \<open>item.find('link-address').text.split('.')[1].split(']')[0].split(' ')[0].strip()\<close>.
\<close>

definition unit_text :: "xml \<Rightarrow> py_error + string" where
  "unit_text item =
     bind (text_attr (find_elem ''name'' item)) (\<lambda>units.
     bind (split_attr CHR ''.'' units) (\<lambda>parts.
     bind (getitem parts 1) (\<lambda>u. Inr (strip u))))"

definition vlan_text :: "xml \<Rightarrow> py_error + string" where
  "vlan_text item =
     bind (text_attr (find_elem ''link-address'' item)) (\<lambda>vlandata.
     bind (split_attr CHR ''.'' vlandata) (\<lambda>parts.
     bind (getitem parts 1) (\<lambda>v1.
     bind (getitem (split CHR '']'' v1) 0) (\<lambda>v2.
     bind (getitem (split CHR '' '' v2) 0) (\<lambda>v3. Inr (strip v3))))))"

text \<open>The bodies of the extraction loops: the integer one record contributes.\<close>

definition unit_of :: "xml \<Rightarrow> py_error + int" where
  "unit_of item = bind (unit_text item) py_int"

definition classic_vlan_of :: "xml \<Rightarrow> py_error + int" where
  "classic_vlan_of item = bind (vlan_text item) py_int"

definition switch_vlan_of :: "xml \<Rightarrow> py_error + int" where
  "switch_vlan_of item =
     bind (text_attr (find_elem ''interface-vlan-member-tagid'' item)) py_int_attr"

definition rt_of :: "xml \<Rightarrow> py_error + int" where
  "rt_of item =
     bind (text_attr (find_path ''vrf-target'' ''community'' item)) (\<lambda>rts.
     bind (split_attr CHR '':'' rts) (\<lambda>parts.
     bind (getitem parts 2) py_int))"

definition rd_of :: "xml \<Rightarrow> py_error + int" where
  "rd_of item =
     bind (text_attr (find_path ''route-distinguisher'' ''rd-type'' item)) (\<lambda>rds.
     bind (split_attr CHR '':'' rds) (\<lambda>parts.
     bind (getitem parts 1) py_int))"

text \<open>
  \<open>for item in items: acc.append(f(item))\<close>: the first record that raises ends the loop
  and the call.
\<close>

fun for_append :: "(xml \<Rightarrow> py_error + int) \<Rightarrow> xml list \<Rightarrow> int list \<Rightarrow> py_error + int list" where
  "for_append f [] acc = Inr acc"
| "for_append f (item # items) acc =
     (case f item of Inl e \<Rightarrow> Inl e | Inr v \<Rightarrow> for_append f items (acc @ [v]))"

text \<open>
  \<open>for item in items: try: acc.append(f(item)) except: pass\<close>: a record that raises is
  passed over.
\<close>

fun for_append_try :: "(xml \<Rightarrow> py_error + int) \<Rightarrow> xml list \<Rightarrow> int list \<Rightarrow> int list" where
  "for_append_try f [] acc = acc"
| "for_append_try f (item # items) acc =
     (case f item of Inl e \<Rightarrow> for_append_try f items acc
                   | Inr v \<Rightarrow> for_append_try f items (acc @ [v]))"

text \<open>
  The nested loop of the SWITCH branch: for every \<open>interface-vlan-member-list\<close> element
  the inner loop runs over the \<open>interface-vlan-member\<close> elements of the whole reply.
\<close>

fun switch_loop :: "xml list \<Rightarrow> xml list \<Rightarrow> int list \<Rightarrow> py_error + int list" where
  "switch_loop [] members acc = Inr acc"
| "switch_loop (l # ls) members acc =
     (case for_append switch_vlan_of members acc of
        Inl e \<Rightarrow> Inl e
      | Inr acc' \<Rightarrow> switch_loop ls members acc')"

definition get_int_units :: "device \<Rightarrow> py_error + int list" where
  "get_int_units dev =
     (case for_append unit_of (iter ''logical-interface'' (get_interface_information dev)) [] of
        Inl e \<Rightarrow> Inl e
      | Inr all_units \<Rightarrow> Inr (sort all_units))"

definition get_int_vlans :: "device \<Rightarrow> py_error + int list" where
  "get_int_vlans dev =
     (if ifd_style dev = ''CLASSIC'' then
        (case for_append classic_vlan_of
                (iter ''logical-interface'' (get_interface_information dev)) [] of
           Inl e \<Rightarrow> Inl e
         | Inr all_vlans \<Rightarrow> Inr (sort all_vlans))
      else if ifd_style dev = ''SWITCH'' then
        (let interface = get_ethernet_switching_interface_information dev in
         case switch_loop (iter ''interface-vlan-member-list'' interface)
                          (iter ''interface-vlan-member'' interface) [] of
           Inl e \<Rightarrow> Inl e
         | Inr all_vlans \<Rightarrow> Inr (sort all_vlans))
      else Inl (TypeError ''Unsupported device type''))"

text \<open>\<open>config[-2]\<close> is read outside the \<open>try\<close>; the loop runs over its children.\<close>

definition get_rts :: "device \<Rightarrow> py_error + int list" where
  "get_rts dev =
     (case getitem_neg (children (get_config dev)) 2 of
        Inl e \<Rightarrow> Inl e
      | Inr instances \<Rightarrow> Inr (sort (for_append_try rt_of (children instances) [])))"

definition get_rds :: "device \<Rightarrow> py_error + int list" where
  "get_rds dev =
     (case getitem_neg (children (get_config dev)) 2 of
        Inl e \<Rightarrow> Inl e
      | Inr instances \<Rightarrow> Inr (sort (for_append_try rd_of (children instances) [])))"

section \<open>Next free unit\<close>

text \<open>
  \<open>next(ifilterfalse(units.__contains__, count(start)))\<close>: candidates \<open>start\<close>,
  \<open>start + 1\<close>, ... are tested for membership until one is absent. The counter has no
  upper end, so the scan is a loop that need not return: \<open>None\<close> stands for a scan
  that runs forever.
\<close>

partial_function (option) next_free :: "int list \<Rightarrow> int \<Rightarrow> int option" where
  "next_free units n = (if n \<in> set units then next_free units (n + 1) else Some n)"

declare next_free.simps [code]

definition next_unit_int :: "device \<Rightarrow> int \<Rightarrow> (py_error + int) option" where
  "next_unit_int dev start =
     (case get_int_units dev of
        Inl e \<Rightarrow> Some (Inl e)
      | Inr units \<Rightarrow> map_option Inr (next_free units start))"

text \<open>\<open>loopback.xpath(...)[0].text\<close>.\<close>

definition loopbackip :: "device \<Rightarrow> py_error + string option" where
  "loopbackip dev = bind (getitem (loopback_xpath dev) 0) (\<lambda>e. Inr (text_of e))"

definition next_unit_int_lo :: "device \<Rightarrow> int \<Rightarrow> (py_error + int \<times> string option) option" where
  "next_unit_int_lo dev start =
     (case for_append unit_of (iter ''logical-interface'' (get_interface_information dev)) [] of
        Inl e \<Rightarrow> Some (Inl e)
      | Inr all_units \<Rightarrow>
          (case next_free all_units start of
             None \<Rightarrow> None
           | Some next_unit \<Rightarrow>
               Some (bind (loopbackip dev) (\<lambda>ip. Inr (next_unit, ip)))))"

section \<open>Unit of a VLAN\<close>

text \<open>
  \<open>find_unit_for_vlan\<close> returns from inside the loop at the first match; when the loop
  ends without a match the function ends without a \<open>return\<close>, which in Python yields
  \<open>None\<close>.
\<close>

fun find_loop :: "xml list \<Rightarrow> string \<Rightarrow> py_error + string option" where
  "find_loop [] vlan = Inr None"
| "find_loop (item # items) vlan =
     (case vlan_text item of
        Inl e \<Rightarrow> Inl e
      | Inr v \<Rightarrow>
          if v = vlan then (case unit_text item of Inl e \<Rightarrow> Inl e | Inr u \<Rightarrow> Inr (Some u))
          else find_loop items vlan)"

definition find_unit_for_vlan :: "device \<Rightarrow> string \<Rightarrow> py_error + string option" where
  "find_unit_for_vlan dev vlan =
     find_loop (iter ''logical-interface'' (get_interface_information dev)) vlan"

text \<open>
  \<open>find_unit_for_vlan_lo\<close> assigns \<open>unit\<close> at every match and goes on; \<open>unit\<close> is
  read after the loop. The third argument is the binding of \<open>unit\<close>, \<open>None\<close> while it
  is unbound.
\<close>

fun find_lo_loop :: "xml list \<Rightarrow> string \<Rightarrow> string option \<Rightarrow> py_error + string option" where
  "find_lo_loop [] vlan unit = Inr unit"
| "find_lo_loop (item # items) vlan unit =
     (case vlan_text item of
        Inl e \<Rightarrow> Inl e
      | Inr v \<Rightarrow>
          if v = vlan then
            (case unit_text item of
               Inl e \<Rightarrow> Inl e
             | Inr u \<Rightarrow> find_lo_loop items vlan (Some u))
          else find_lo_loop items vlan unit)"

definition find_unit_for_vlan_lo :: "device \<Rightarrow> string \<Rightarrow> py_error + string \<times> string option" where
  "find_unit_for_vlan_lo dev vlan =
     bind (loopbackip dev) (\<lambda>ip.
     bind (find_lo_loop (iter ''logical-interface'' (get_interface_information dev)) vlan None)
       (\<lambda>unit. case unit of None \<Rightarrow> Inl UnboundLocalError | Some u \<Rightarrow> Inr (u, ip)))"

text \<open>The records the unit and VLAN loops run over.\<close>

abbreviation logical_interfaces :: "device \<Rightarrow> xml list" where
  "logical_interfaces dev \<equiv> iter ''logical-interface'' (get_interface_information dev)"

abbreviation vlan_members :: "device \<Rightarrow> xml list" where
  "vlan_members dev \<equiv>
     iter ''interface-vlan-member'' (get_ethernet_switching_interface_information dev)"

section \<open>Example replies\<close>

text \<open>
  The records of the specification's example, as a device would send them: three logical
  interfaces of \<open>ge-0/2/5\<close> with their VLAN tags, a configuration with three routing
  instances of which the second has neither a route target nor a route distinguisher, and
  an ethernet-switching reply with two member lists.
\<close>

definition logical_interface :: "string \<Rightarrow> string \<Rightarrow> xml" where
  "logical_interface name link =
     Element ''logical-interface'' None
       [Element ''name'' (Some name) [], Element ''link-address'' (Some link) []]"

definition interface_reply :: "xml list \<Rightarrow> xml" where
  "interface_reply items =
     Element ''interface-information'' None [Element ''physical-interface'' None items]"

definition routing_instance :: "string \<Rightarrow> xml list \<Rightarrow> xml" where
  "routing_instance name body = Element ''instance'' None (Element ''name'' (Some name) [] # body)"

definition vrf_target :: "string \<Rightarrow> xml" where
  "vrf_target rt = Element ''vrf-target'' None [Element ''community'' (Some rt) []]"

definition route_distinguisher :: "string \<Rightarrow> xml" where
  "route_distinguisher rd = Element ''route-distinguisher'' None [Element ''rd-type'' (Some rd) []]"

definition vlan_member :: "string \<Rightarrow> xml" where
  "vlan_member tagid =
     Element ''interface-vlan-member'' None
       [Element ''interface-vlan-member-tagid'' (Some tagid) []]"

definition example_config :: xml where
  "example_config =
     Element ''configuration'' None
       [Element ''interfaces'' None [],
        Element ''routing-instances'' None
          [routing_instance ''A'' [route_distinguisher ''10.92.0.1:38'', vrf_target ''target:64512:38''],
           routing_instance ''B'' [],
           routing_instance ''C'' [route_distinguisher ''10.92.0.1:27'', vrf_target ''target:64512:27'']],
        Element ''protocols'' None []]"

definition example_switching :: xml where
  "example_switching =
     Element ''switching-interface-information'' None
       [Element ''interface'' None
          [Element ''interface-vlan-member-list'' None [vlan_member ''101'']],
        Element ''interface'' None
          [Element ''interface-vlan-member-list'' None [vlan_member ''102'']]]"

definition example_device :: device where
  "example_device =
     \<lparr>ifd_style = ''CLASSIC'',
      get_interface_information = interface_reply
        [logical_interface ''ge-0/2/5.4'' ''VLAN-Tag [ 0x8100.4 ] '',
         logical_interface ''ge-0/2/5.2001'' ''VLAN-Tag [ 0x8100.1871 ] '',
         logical_interface ''ge-0/2/5.2002'' ''VLAN-Tag [ 0x8100.500 ] ''],
      get_ethernet_switching_interface_information = example_switching,
      get_config = example_config,
      loopback_xpath = [Element ''ifa-local'' (Some ''10.1.1.1'') []]\<rparr>"

text \<open>The same records in another order.\<close>

definition permuted_device :: device where
  "permuted_device =
     example_device\<lparr>get_interface_information := interface_reply
        [logical_interface ''ge-0/2/5.2002'' ''VLAN-Tag [ 0x8100.500 ] '',
         logical_interface ''ge-0/2/5.4'' ''VLAN-Tag [ 0x8100.4 ] '',
         logical_interface ''ge-0/2/5.2001'' ''VLAN-Tag [ 0x8100.1871 ] '']\<rparr>"

text \<open>A record without a \<open>name\<close> and without a \<open>link-address\<close> between two complete ones.\<close>

definition nameless_record :: xml where
  "nameless_record = Element ''logical-interface'' None [Element ''description'' (Some ''spare'') []]"

definition malformed_device :: device where
  "malformed_device =
     example_device\<lparr>get_interface_information := interface_reply
        [logical_interface ''ge-0/2/5.4'' ''VLAN-Tag [ 0x8100.4 ] '',
         nameless_record,
         logical_interface ''ge-0/2/5.2001'' ''VLAN-Tag [ 0x8100.1871 ] '']\<rparr>"

text \<open>VLAN 2001 on the units 2003 and 2004.\<close>

definition shared_vlan_device :: device where
  "shared_vlan_device =
     example_device\<lparr>get_interface_information := interface_reply
        [logical_interface ''ge-0/2/5.2003'' ''VLAN-Tag [ 0x8100.2001 ] '',
         logical_interface ''ge-0/2/5.2004'' ''VLAN-Tag [ 0x8100.2001 ] '']\<rparr>"

definition switch_device :: device where
  "switch_device = example_device\<lparr>ifd_style := ''SWITCH''\<rparr>"

definition other_device :: device where
  "other_device = example_device\<lparr>ifd_style := ''ROUTER''\<rparr>"

text \<open>A name whose component after the dot carries a sign.\<close>

definition negative_unit_device :: device where
  "negative_unit_device =
     example_device\<lparr>get_interface_information := interface_reply
        [logical_interface ''ge-0/2/5.-4'' ''VLAN-Tag [ 0x8100.4 ] '']\<rparr>"

section \<open>Properties of the loops\<close>

lemma for_append_ok:
  "(\<forall>i \<in> set items. \<not> isl (f i)) \<Longrightarrow>
     for_append f items acc = Inr (acc @ map (\<lambda>i. projr (f i)) items)"
proof (induction items arbitrary: acc)
  case Nil
  show ?case by simp
next
  case (Cons item items)
  from Cons.prems obtain v where v: "f item = Inr v" by (cases "f item") auto
  from Cons.prems have "\<forall>i \<in> set items. \<not> isl (f i)" by simp
  from Cons.IH [OF this] show ?case using v by simp
qed

lemma for_append_raises:
  "i \<in> set items \<Longrightarrow> isl (f i) \<Longrightarrow> isl (for_append f items acc)"
  by (induction items arbitrary: acc) (auto split: sum.splits)

lemma for_append_first_error:
  "List.find (\<lambda>i. isl (f i)) items = Some bad \<Longrightarrow>
     for_append f items acc = Inl (projl (f bad))"
proof (induction items arbitrary: acc)
  case Nil
  then show ?case by simp
next
  case (Cons item items)
  show ?case
  proof (cases "f item")
    case (Inl e)
    with Cons.prems show ?thesis by simp
  next
    case (Inr v)
    with Cons.prems have "List.find (\<lambda>i. isl (f i)) items = Some bad" by simp
    from Cons.IH [OF this] show ?thesis using Inr by simp
  qed
qed

lemma for_append_InrD:
  assumes "for_append f items acc = Inr r"
  shows "(\<forall>i \<in> set items. \<not> isl (f i)) \<and> r = acc @ map (\<lambda>i. projr (f i)) items"
proof -
  have ok: "\<forall>i \<in> set items. \<not> isl (f i)"
  proof (rule ccontr)
    assume "\<not> ?thesis"
    then obtain i where "i \<in> set items" "isl (f i)" by blast
    then have "isl (for_append f items acc)" by (rule for_append_raises)
    with assms show False by simp
  qed
  with for_append_ok [OF ok, of acc] assms show ?thesis by simp
qed

lemma for_append_try_eq:
  "for_append_try f items acc =
     acc @ map (\<lambda>i. projr (f i)) (filter (\<lambda>i. \<not> isl (f i)) items)"
  by (induction items arbitrary: acc) (auto split: sum.splits)

lemma switch_loop_ok:
  "(\<forall>m \<in> set members. \<not> isl (switch_vlan_of m)) \<Longrightarrow>
     switch_loop ls members acc =
       Inr (acc @ concat (replicate (length ls) (map (\<lambda>m. projr (switch_vlan_of m)) members)))"
proof (induction ls arbitrary: acc)
  case Nil
  show ?case by simp
next
  case (Cons l ls)
  show ?case
    using Cons.IH [OF Cons.prems] for_append_ok [OF Cons.prems] by simp
qed

lemma next_free_total:
  "\<exists>m. next_free us n = Some m \<and> n \<le> m \<and> m \<notin> set us
       \<and> (\<forall>k. n \<le> k \<and> k < m \<longrightarrow> k \<in> set us)
       \<and> m \<le> n + int (card {x \<in> set us. n \<le> x})"
proof (induction "card {x \<in> set us. n \<le> x}" arbitrary: n rule: less_induct)
  case less
  show ?case
  proof (cases "n \<in> set us")
    case False
    then show ?thesis by (subst next_free.simps) auto
  next
    case True
    have fin: "finite {x \<in> set us. n \<le> x}" by simp
    have "n \<in> {x \<in> set us. n \<le> x}" "n \<notin> {x \<in> set us. n + 1 \<le> x}"
      using True by simp_all
    moreover have "{x \<in> set us. n + 1 \<le> x} \<subseteq> {x \<in> set us. n \<le> x}" by auto
    ultimately have sub: "{x \<in> set us. n + 1 \<le> x} \<subset> {x \<in> set us. n \<le> x}"
      by blast
    have lt: "card {x \<in> set us. n + 1 \<le> x} < card {x \<in> set us. n \<le> x}"
      by (rule psubset_card_mono [OF fin sub])
    from less [OF lt] obtain m where m: "next_free us (n + 1) = Some m" "n + 1 \<le> m"
      "m \<notin> set us" "\<forall>k. n + 1 \<le> k \<and> k < m \<longrightarrow> k \<in> set us"
      "m \<le> n + 1 + int (card {x \<in> set us. n + 1 \<le> x})" by blast
    have 1: "next_free us n = Some m" using True m(1) by (subst next_free.simps) simp
    have 2: "\<forall>k. n \<le> k \<and> k < m \<longrightarrow> k \<in> set us"
    proof (intro allI impI)
      fix k assume k: "n \<le> k \<and> k < m"
      show "k \<in> set us"
      proof (cases "k = n")
        case True then show ?thesis using \<open>n \<in> set us\<close> by simp
      next
        case False then show ?thesis using k m(4) by auto
      qed
    qed
    have 3: "m \<le> n + int (card {x \<in> set us. n \<le> x})" using m(5) lt by linarith
    show ?thesis using 1 2 3 m(2,3) by auto
  qed
qed

lemma next_free_set_cong:
  assumes "set us = set vs"
  shows "next_free us n = next_free vs n"
proof -
  obtain m where m: "next_free us n = Some m" "n \<le> m" "m \<notin> set us"
    "\<forall>k. n \<le> k \<and> k < m \<longrightarrow> k \<in> set us"
    using next_free_total [of us n] by blast
  obtain m' where m': "next_free vs n = Some m'" "n \<le> m'" "m' \<notin> set vs"
    "\<forall>k. n \<le> k \<and> k < m' \<longrightarrow> k \<in> set vs"
    using next_free_total [of vs n] by blast
  have "\<not> m' < m" using m(4) m'(2,3) assms by auto
  moreover have "\<not> m < m'" using m'(4) m(2,3) assms by auto
  ultimately have "m = m'" by simp
  with m(1) m'(1) show ?thesis by simp
qed

lemma sort_mset_cong: "mset xs = mset ys \<Longrightarrow> sort xs = sort (ys :: int list)"
  by (rule properties_for_sort) simp_all

lemma value_in_sorted_values:
  assumes "r \<in> set items" and "f r = Inr v"
  shows "v \<in> set (sort (map (\<lambda>r. projr (f r)) (filter (\<lambda>r. \<not> isl (f r)) items)))"
proof -
  from assms have "r \<in> {r \<in> set items. \<not> isl (f r)}" and "v = projr (f r)" by simp_all
  then have "v \<in> (\<lambda>r. projr (f r)) ` {r \<in> set items. \<not> isl (f r)}" by (rule image_eqI [rotated])
  then show ?thesis by simp
qed

lemma for_append_error_source:
  "for_append f items acc = Inl e \<Longrightarrow> \<exists>i \<in> set items. f i = Inl e"
  by (induction items arbitrary: acc) (auto split: sum.splits)

lemma switch_loop_error_source:
  "switch_loop ls members acc = Inl e \<Longrightarrow> \<exists>m \<in> set members. switch_vlan_of m = Inl e"
  by (induction ls arbitrary: acc) (auto split: sum.splits dest: for_append_error_source)

lemma int_of_digits_error: "int_of_digits ds = Inl e \<Longrightarrow> e = ValueError"
  by (auto simp: int_of_digits_def split: if_splits)

lemma py_int_error: "py_int s = Inl e \<Longrightarrow> e = ValueError"
  by (auto simp: py_int_def split: list.splits if_splits sum.splits dest: int_of_digits_error)

lemma vlan_text_error: "vlan_text r = Inl e \<Longrightarrow> e = AttributeError \<or> e = IndexError"
  by (auto simp: vlan_text_def bind_def text_attr_def split_attr_def getitem_def
           split: sum.splits option.splits if_splits)

lemma classic_vlan_of_error:
  "classic_vlan_of r = Inl e \<Longrightarrow> e = AttributeError \<or> e = IndexError \<or> e = ValueError"
  by (auto simp: classic_vlan_of_def bind_def split: sum.splits
           dest: vlan_text_error py_int_error)

lemma switch_vlan_of_error:
  "switch_vlan_of m = Inl e \<Longrightarrow> e \<noteq> TypeError ''Unsupported device type''"
  by (auto simp: switch_vlan_of_def bind_def text_attr_def py_int_attr_def
           split: sum.splits option.splits dest: py_int_error)

lemma find_loop_no_match:
  "\<forall>r \<in> set items. \<exists>v. vlan_text r = Inr v \<and> v \<noteq> vlan \<Longrightarrow> find_loop items vlan = Inr None"
  by (induction items) auto

lemma find_lo_loop_no_match:
  "\<forall>r \<in> set items. \<exists>v. vlan_text r = Inr v \<and> v \<noteq> vlan \<Longrightarrow>
     find_lo_loop items vlan unit = Inr unit"
  by (induction items arbitrary: unit) auto

lemma find_loop_first_match:
  assumes "\<forall>r \<in> set before. \<exists>v. vlan_text r = Inr v \<and> v \<noteq> vlan"
      and "vlan_text m = Inr vlan" and "unit_text m = Inr u"
  shows "find_loop (before @ m # after) vlan = Inr (Some u)"
  using assms by (induction before) auto

lemma find_lo_loop_append:
  "find_lo_loop (xs @ ys) vlan unit =
     (case find_lo_loop xs vlan unit of Inl e \<Rightarrow> Inl e | Inr unit' \<Rightarrow> find_lo_loop ys vlan unit')"
  by (induction xs arbitrary: unit) (auto split: sum.splits)

lemma find_lo_loop_last_match:
  assumes "find_lo_loop before vlan unit = Inr unit'"
      and "vlan_text m = Inr vlan" and "unit_text m = Inr u"
      and "\<forall>r \<in> set after. \<exists>v. vlan_text r = Inr v \<and> v \<noteq> vlan"
  shows "find_lo_loop (before @ m # after) vlan unit = Inr (Some u)"
  using assms by (simp add: find_lo_loop_append find_lo_loop_no_match)

section \<open>The next-free search\<close>

text \<open>
  C1. When the extracted unit list of the device is \<open>us\<close>, \<open>next_unit_int\<close> returns, and
  what it returns is the smallest integer \<open>n\<close> with \<open>start \<le> n\<close> that is not in \<open>us\<close>:
  \<open>n\<close> is not a unit, every integer from \<open>start\<close> up to \<open>n\<close> (excluded) is one, and no
  free integer at or above \<open>start\<close> is smaller. \<open>start\<close> itself is a candidate: with no
  unit at all the result is \<open>start\<close>.
\<close>

theorem next_unit_int_smallest_free:
  assumes "get_int_units dev = Inr us"
  shows "\<exists>n. next_unit_int dev start = Some (Inr n)
           \<and> start \<le> n \<and> n \<notin> set us
           \<and> (\<forall>k. start \<le> k \<and> k < n \<longrightarrow> k \<in> set us)
           \<and> (\<forall>m. start \<le> m \<and> m \<notin> set us \<longrightarrow> n \<le> m)
           \<and> (us = [] \<longrightarrow> n = start)"
proof -
  obtain n where n: "next_free us start = Some n" "start \<le> n" "n \<notin> set us"
    "\<forall>k. start \<le> k \<and> k < n \<longrightarrow> k \<in> set us"
    using next_free_total [of us start] by blast
  have res: "next_unit_int dev start = Some (Inr n)"
    using assms n(1) by (simp add: next_unit_int_def)
  have least: "\<forall>m. start \<le> m \<and> m \<notin> set us \<longrightarrow> n \<le> m"
    using n(4) by (meson not_le)
  have empty: "us = [] \<longrightarrow> n = start"
    using n(2) n(4) by (cases "start < n") auto
  show ?thesis using res n(2,3,4) least empty by blast
qed

theorem next_unit_int_smallest_free_witness:
  "get_int_units example_device = Inr [4, 2001, 2002]
   \<and> next_unit_int example_device 2001 = Some (Inr 2003)
   \<and> next_unit_int example_device 2000 = Some (Inr 2000)"
proof -
  have us: "get_int_units example_device = Inr [4, 2001, 2002]" by code_simp
  obtain n where n: "next_unit_int example_device 2001 = Some (Inr n)"
    "n \<notin> set [4, 2001, 2002]" "2001 \<le> n"
    "\<forall>k. 2001 \<le> k \<and> k < n \<longrightarrow> k \<in> set [4, 2001, 2002]"
    "\<forall>m. 2001 \<le> m \<and> m \<notin> set [4, 2001, 2002] \<longrightarrow> n \<le> m"
    using next_unit_int_smallest_free [OF us, of 2001] by blast
  from n(5) have "n \<le> 2003" by simp
  moreover have "\<not> n < 2003"
  proof
    assume "n < 2003"
    with n(3) have "n = 2001 \<or> n = 2002" by arith
    with n(2) show False by auto
  qed
  ultimately have "n = 2003" by simp
  with n(1) have a: "next_unit_int example_device 2001 = Some (Inr 2003)" by simp
  obtain n' where n': "next_unit_int example_device 2000 = Some (Inr n')" "2000 \<le> n'"
    "\<forall>m. 2000 \<le> m \<and> m \<notin> set [4, 2001, 2002] \<longrightarrow> n' \<le> m"
    using next_unit_int_smallest_free [OF us, of 2000] by blast
  from n'(3) have "n' \<le> 2000" by simp
  with n'(1,2) have b: "next_unit_int example_device 2000 = Some (Inr 2000)" by simp
  show ?thesis using us a b by simp
qed

text \<open>
  C2. The upward scan over a finite unit list terminates: it returns a value (it is
  never \<open>None\<close>), and the value is at most \<open>start + |U| + 1\<close>, where \<open>U\<close> is the set of the
  units. The candidates it examines are \<open>start, ..., n\<close>, so none lies beyond that bound.
\<close>

theorem next_free_terminates_within_bound:
  "\<exists>n. next_free us start = Some n \<and> start \<le> n \<and> n \<le> start + int (card (set us)) + 1"
proof -
  obtain n where n: "next_free us start = Some n" "start \<le> n"
    "n \<le> start + int (card {x \<in> set us. start \<le> x})"
    using next_free_total [of us start] by blast
  have "card {x \<in> set us. start \<le> x} \<le> card (set us)"
    by (rule card_mono) auto
  with n(3) have "n \<le> start + int (card (set us)) + 1" by linarith
  with n(1,2) show ?thesis by blast
qed

text \<open>
  C10. \<open>next_unit_int_lo\<close> repeats the unit extraction and the search of
  \<open>next_unit_int\<close> (on the unsorted list instead of the sorted one) and then reads the
  loopback address. Whenever it returns a pair, the first component is the result of
  \<open>next_unit_int\<close> on the same reply and start; in full, it raises what
  \<open>next_unit_int\<close> raises, and otherwise pairs the result of \<open>next_unit_int\<close> with the
  address or raises what reading the address raises.
\<close>

theorem next_unit_int_lo_first_component:
  "next_unit_int_lo dev start =
     (case next_unit_int dev start of
        None \<Rightarrow> None
      | Some (Inl e) \<Rightarrow> Some (Inl e)
      | Some (Inr n) \<Rightarrow> Some (bind (loopbackip dev) (\<lambda>ip. Inr (n, ip))))
   \<and> (\<forall>n ip. next_unit_int_lo dev start = Some (Inr (n, ip)) \<longrightarrow>
               next_unit_int dev start = Some (Inr n))"
proof -
  let ?loop = "for_append unit_of (iter ''logical-interface'' (get_interface_information dev)) []"
  have eq: "next_unit_int_lo dev start =
     (case next_unit_int dev start of
        None \<Rightarrow> None
      | Some (Inl e) \<Rightarrow> Some (Inl e)
      | Some (Inr n) \<Rightarrow> Some (bind (loopbackip dev) (\<lambda>ip. Inr (n, ip))))"
  proof (cases ?loop)
    case (Inl e)
    then show ?thesis by (simp add: next_unit_int_lo_def next_unit_int_def get_int_units_def)
  next
    case (Inr all_units)
    have "next_free (sort all_units) start = next_free all_units start"
      by (rule next_free_set_cong) simp
    moreover obtain n where "next_free all_units start = Some n"
      using next_free_total [of all_units start] by blast
    ultimately show ?thesis
      using Inr by (simp add: next_unit_int_lo_def next_unit_int_def get_int_units_def)
  qed
  have fst: "\<forall>n ip. next_unit_int_lo dev start = Some (Inr (n, ip)) \<longrightarrow>
               next_unit_int dev start = Some (Inr n)"
  proof (intro allI impI)
    fix n ip
    assume "next_unit_int_lo dev start = Some (Inr (n, ip))"
    with eq show "next_unit_int dev start = Some (Inr n)"
      by (auto simp: bind_def split: option.splits sum.splits)
  qed
  from eq fst show ?thesis by (rule conjI)
qed

theorem next_unit_int_lo_first_component_witness:
  "next_unit_int_lo example_device 2001 = Some (Inr (2003, Some ''10.1.1.1''))
   \<and> next_unit_int example_device 2001 = Some (Inr 2003)"
proof -
  have lo: "next_unit_int_lo example_device 2001 = Some (Inr (2003, Some ''10.1.1.1''))"
    by code_simp
  from next_unit_int_lo_first_component [of example_device 2001] lo
  have "next_unit_int example_device 2001 = Some (Inr 2003)" by blast
  with lo show ?thesis by simp
qed

section \<open>Unit and VLAN extraction\<close>

text \<open>
  C3. A record is well formed for the unit extraction when the loop body returns an
  integer for it, the integer parsed from the component after the first \<open>.\<close> of its
  \<open>name\<close>. On a reply whose records are all well formed, \<open>get_int_units\<close> returns the
  sorted list of these integers, and a reply holding the same records in another order
  gives the same list.
\<close>

theorem get_int_units_sorted_any_order:
  assumes wf: "\<forall>r \<in> set (logical_interfaces dev). \<not> isl (unit_of r)"
      and perm: "mset (logical_interfaces dev') = mset (logical_interfaces dev)"
  shows "get_int_units dev = Inr (sort (map (\<lambda>r. projr (unit_of r)) (logical_interfaces dev)))
         \<and> get_int_units dev' = get_int_units dev"
proof -
  let ?g = "\<lambda>r. projr (unit_of r)"
  have a: "get_int_units dev = Inr (sort (map ?g (logical_interfaces dev)))"
    using for_append_ok [OF wf, of "[]"] by (simp add: get_int_units_def)
  from perm have "set (logical_interfaces dev') = set (logical_interfaces dev)"
    by (rule mset_eq_setD)
  with wf have wf': "\<forall>r \<in> set (logical_interfaces dev'). \<not> isl (unit_of r)" by simp
  have b: "get_int_units dev' = Inr (sort (map ?g (logical_interfaces dev')))"
    using for_append_ok [OF wf', of "[]"] by (simp add: get_int_units_def)
  have "mset (map ?g (logical_interfaces dev')) = mset (map ?g (logical_interfaces dev))"
    using perm by simp
  then have "sort (map ?g (logical_interfaces dev')) = sort (map ?g (logical_interfaces dev))"
    by (rule sort_mset_cong)
  with a b show ?thesis by simp
qed

theorem get_int_units_sorted_any_order_witness:
  "get_int_units example_device = Inr [4, 2001, 2002]
   \<and> get_int_units permuted_device = Inr [4, 2001, 2002]
   \<and> logical_interfaces permuted_device \<noteq> logical_interfaces example_device"
proof -
  have wf: "\<forall>r \<in> set (logical_interfaces example_device). \<not> isl (unit_of r)" by code_simp
  have perm: "mset (logical_interfaces permuted_device) = mset (logical_interfaces example_device)"
    by (simp add: example_device_def permuted_device_def interface_reply_def)
  have v: "sort (map (\<lambda>r. projr (unit_of r)) (logical_interfaces example_device)) = [4, 2001, 2002]"
    by code_simp
  have ne: "logical_interfaces permuted_device \<noteq> logical_interfaces example_device" by code_simp
  from get_int_units_sorted_any_order [OF wf perm] v ne show ?thesis by simp
qed

text \<open>
  C4. In \<open>get_int_units\<close> and in the CLASSIC branch of \<open>get_int_vlans\<close> no record is
  passed over. A record without the \<open>name\<close> (the \<open>link-address\<close>) field raises; a record
  for which the loop body raises, for a missing field or for a text that is no integer,
  makes the call raise, and the call raises the error of the first such record; and a
  call that returns has one element for each record.
\<close>

theorem strict_extraction_raises:
  assumes "r \<in> set (logical_interfaces dev)"
  shows "(find_elem ''name'' r = None \<longrightarrow> unit_of r = Inl AttributeError)
       \<and> (find_elem ''link-address'' r = None \<longrightarrow> classic_vlan_of r = Inl AttributeError)
       \<and> (isl (unit_of r) \<longrightarrow> isl (get_int_units dev))
       \<and> (ifd_style dev = ''CLASSIC'' \<and> isl (classic_vlan_of r) \<longrightarrow> isl (get_int_vlans dev))
       \<and> (List.find (\<lambda>i. isl (unit_of i)) (logical_interfaces dev) = Some r \<longrightarrow>
            get_int_units dev = Inl (projl (unit_of r)))
       \<and> (ifd_style dev = ''CLASSIC'' \<and>
            List.find (\<lambda>i. isl (classic_vlan_of i)) (logical_interfaces dev) = Some r \<longrightarrow>
            get_int_vlans dev = Inl (projl (classic_vlan_of r)))
       \<and> (\<forall>us. get_int_units dev = Inr us \<longrightarrow> length us = length (logical_interfaces dev))
       \<and> (\<forall>vs. ifd_style dev = ''CLASSIC'' \<and> get_int_vlans dev = Inr vs \<longrightarrow>
            length vs = length (logical_interfaces dev))"
proof -
  have 1: "find_elem ''name'' r = None \<longrightarrow> unit_of r = Inl AttributeError"
    by (simp add: unit_of_def unit_text_def text_attr_def bind_def)
  have 2: "find_elem ''link-address'' r = None \<longrightarrow> classic_vlan_of r = Inl AttributeError"
    by (simp add: classic_vlan_of_def vlan_text_def text_attr_def bind_def)
  have 3: "isl (unit_of r) \<longrightarrow> isl (get_int_units dev)"
  proof
    assume "isl (unit_of r)"
    with assms have "isl (for_append unit_of (logical_interfaces dev) [])"
      by (rule for_append_raises)
    then show "isl (get_int_units dev)"
      by (cases "for_append unit_of (logical_interfaces dev) []")
         (simp_all add: get_int_units_def)
  qed
  have 4: "ifd_style dev = ''CLASSIC'' \<and> isl (classic_vlan_of r) \<longrightarrow> isl (get_int_vlans dev)"
  proof
    assume a: "ifd_style dev = ''CLASSIC'' \<and> isl (classic_vlan_of r)"
    with assms have "isl (for_append classic_vlan_of (logical_interfaces dev) [])"
      by (auto intro: for_append_raises)
    with a show "isl (get_int_vlans dev)"
      by (cases "for_append classic_vlan_of (logical_interfaces dev) []")
         (simp_all add: get_int_vlans_def)
  qed
  have 5: "List.find (\<lambda>i. isl (unit_of i)) (logical_interfaces dev) = Some r \<longrightarrow>
            get_int_units dev = Inl (projl (unit_of r))"
    by (simp add: get_int_units_def for_append_first_error)
  have 6: "ifd_style dev = ''CLASSIC'' \<and>
            List.find (\<lambda>i. isl (classic_vlan_of i)) (logical_interfaces dev) = Some r \<longrightarrow>
            get_int_vlans dev = Inl (projl (classic_vlan_of r))"
    by (simp add: get_int_vlans_def for_append_first_error)
  have 7: "\<forall>us. get_int_units dev = Inr us \<longrightarrow> length us = length (logical_interfaces dev)"
    by (auto simp: get_int_units_def split: sum.splits dest!: for_append_InrD)
  have 8: "\<forall>vs. ifd_style dev = ''CLASSIC'' \<and> get_int_vlans dev = Inr vs \<longrightarrow>
            length vs = length (logical_interfaces dev)"
    by (auto simp: get_int_vlans_def split: sum.splits dest!: for_append_InrD)
  from 1 2 3 4 5 6 7 8 show ?thesis by blast
qed

theorem strict_extraction_raises_witness:
  "nameless_record \<in> set (logical_interfaces malformed_device)
   \<and> find_elem ''name'' nameless_record = None
   \<and> find_elem ''link-address'' nameless_record = None
   \<and> ifd_style malformed_device = ''CLASSIC''
   \<and> get_int_units malformed_device = Inl AttributeError
   \<and> get_int_vlans malformed_device = Inl AttributeError"
proof -
  have m: "nameless_record \<in> set (logical_interfaces malformed_device)" by code_simp
  have n: "find_elem ''name'' nameless_record = None" by code_simp
  have l: "find_elem ''link-address'' nameless_record = None" by code_simp
  have s: "ifd_style malformed_device = ''CLASSIC''" by code_simp
  have fu: "List.find (\<lambda>i. isl (unit_of i)) (logical_interfaces malformed_device) = Some nameless_record"
    by code_simp
  have fv: "List.find (\<lambda>i. isl (classic_vlan_of i)) (logical_interfaces malformed_device) = Some nameless_record"
    by code_simp
  note t = strict_extraction_raises [OF m]
  from t n have u: "unit_of nameless_record = Inl AttributeError" by blast
  from t l have v: "classic_vlan_of nameless_record = Inl AttributeError" by blast
  from t fu have "get_int_units malformed_device = Inl (projl (unit_of nameless_record))"
    by blast
  with u have gu: "get_int_units malformed_device = Inl AttributeError" by simp
  from t s fv have "get_int_vlans malformed_device = Inl (projl (classic_vlan_of nameless_record))"
    by blast
  with v have gv: "get_int_vlans malformed_device = Inl AttributeError" by simp
  from m n l s gu gv show ?thesis by simp
qed

text \<open>
  C6. \<open>get_int_vlans\<close> raises \<open>TypeError('Unsupported device type')\<close> exactly when the
  \<open>ifd_style\<close> fact is neither \<open>CLASSIC\<close> nor \<open>SWITCH\<close>. With \<open>CLASSIC\<close> and records
  that are all well formed it returns a sorted list, and so it does with \<open>SWITCH\<close> and
  member elements that are all well formed; on well-formed replies the call therefore
  raises if and only if the style is neither of the two.
\<close>

theorem get_int_vlans_unsupported_mode:
  "(get_int_vlans dev = Inl (TypeError ''Unsupported device type'')
      \<longleftrightarrow> ifd_style dev \<noteq> ''CLASSIC'' \<and> ifd_style dev \<noteq> ''SWITCH'')
   \<and> (ifd_style dev = ''CLASSIC''
        \<and> (\<forall>r \<in> set (logical_interfaces dev). \<not> isl (classic_vlan_of r))
      \<longrightarrow> (\<exists>vs. get_int_vlans dev = Inr vs \<and> sorted vs))
   \<and> (ifd_style dev = ''SWITCH''
        \<and> (\<forall>m \<in> set (vlan_members dev). \<not> isl (switch_vlan_of m))
      \<longrightarrow> (\<exists>vs. get_int_vlans dev = Inr vs \<and> sorted vs))
   \<and> ((\<forall>r \<in> set (logical_interfaces dev). \<not> isl (classic_vlan_of r))
        \<and> (\<forall>m \<in> set (vlan_members dev). \<not> isl (switch_vlan_of m))
      \<longrightarrow> (isl (get_int_vlans dev)
             \<longleftrightarrow> ifd_style dev \<noteq> ''CLASSIC'' \<and> ifd_style dev \<noteq> ''SWITCH''))"
proof -
  let ?unsupported = "TypeError ''Unsupported device type''"
  have other: "ifd_style dev \<noteq> ''CLASSIC'' \<and> ifd_style dev \<noteq> ''SWITCH''
                 \<Longrightarrow> get_int_vlans dev = Inl ?unsupported"
    by (simp add: get_int_vlans_def)
  have classic_err: "get_int_vlans dev \<noteq> Inl ?unsupported" if c: "ifd_style dev = ''CLASSIC''"
  proof
    assume "get_int_vlans dev = Inl ?unsupported"
    with c have "for_append classic_vlan_of (logical_interfaces dev) [] = Inl ?unsupported"
      by (simp add: get_int_vlans_def split: sum.splits)
    then obtain r where "classic_vlan_of r = Inl ?unsupported"
      by (blast dest: for_append_error_source)
    then show False by (auto dest: classic_vlan_of_error)
  qed
  have switch_err: "get_int_vlans dev \<noteq> Inl ?unsupported" if s: "ifd_style dev = ''SWITCH''"
  proof
    assume "get_int_vlans dev = Inl ?unsupported"
    with s have "switch_loop
        (iter ''interface-vlan-member-list'' (get_ethernet_switching_interface_information dev))
        (vlan_members dev) [] = Inl ?unsupported"
      by (simp add: get_int_vlans_def Let_def split: sum.splits)
    then obtain m where "switch_vlan_of m = Inl ?unsupported"
      by (blast dest: switch_loop_error_source)
    then show False by (auto dest: switch_vlan_of_error)
  qed
  have 1: "get_int_vlans dev = Inl ?unsupported
      \<longleftrightarrow> ifd_style dev \<noteq> ''CLASSIC'' \<and> ifd_style dev \<noteq> ''SWITCH''"
    using other classic_err switch_err by blast
  have 2: "ifd_style dev = ''CLASSIC''
        \<and> (\<forall>r \<in> set (logical_interfaces dev). \<not> isl (classic_vlan_of r))
      \<longrightarrow> (\<exists>vs. get_int_vlans dev = Inr vs \<and> sorted vs)"
  proof
    assume a: "ifd_style dev = ''CLASSIC''
        \<and> (\<forall>r \<in> set (logical_interfaces dev). \<not> isl (classic_vlan_of r))"
    then have wf: "\<forall>r \<in> set (logical_interfaces dev). \<not> isl (classic_vlan_of r)" by simp
    from a for_append_ok [OF wf, of "[]"]
    have "get_int_vlans dev =
            Inr (sort (map (\<lambda>r. projr (classic_vlan_of r)) (logical_interfaces dev)))"
      by (simp add: get_int_vlans_def)
    then show "\<exists>vs. get_int_vlans dev = Inr vs \<and> sorted vs" by simp
  qed
  have 3: "ifd_style dev = ''SWITCH''
        \<and> (\<forall>m \<in> set (vlan_members dev). \<not> isl (switch_vlan_of m))
      \<longrightarrow> (\<exists>vs. get_int_vlans dev = Inr vs \<and> sorted vs)"
  proof
    assume a: "ifd_style dev = ''SWITCH''
        \<and> (\<forall>m \<in> set (vlan_members dev). \<not> isl (switch_vlan_of m))"
    then have wf: "\<forall>m \<in> set (vlan_members dev). \<not> isl (switch_vlan_of m)" by simp
    from a switch_loop_ok [OF wf, of _ "[]"]
    show "\<exists>vs. get_int_vlans dev = Inr vs \<and> sorted vs"
      by (simp add: get_int_vlans_def Let_def)
  qed
  have 4: "(\<forall>r \<in> set (logical_interfaces dev). \<not> isl (classic_vlan_of r))
        \<and> (\<forall>m \<in> set (vlan_members dev). \<not> isl (switch_vlan_of m))
      \<longrightarrow> (isl (get_int_vlans dev)
             \<longleftrightarrow> ifd_style dev \<noteq> ''CLASSIC'' \<and> ifd_style dev \<noteq> ''SWITCH'')"
  proof
    assume wf: "(\<forall>r \<in> set (logical_interfaces dev). \<not> isl (classic_vlan_of r))
        \<and> (\<forall>m \<in> set (vlan_members dev). \<not> isl (switch_vlan_of m))"
    show "isl (get_int_vlans dev)
             \<longleftrightarrow> ifd_style dev \<noteq> ''CLASSIC'' \<and> ifd_style dev \<noteq> ''SWITCH''"
    proof
      assume r: "isl (get_int_vlans dev)"
      show "ifd_style dev \<noteq> ''CLASSIC'' \<and> ifd_style dev \<noteq> ''SWITCH''"
      proof (rule ccontr)
        assume "\<not> ?thesis"
        then have "ifd_style dev = ''CLASSIC'' \<or> ifd_style dev = ''SWITCH''" by blast
        with wf 2 3 obtain vs where "get_int_vlans dev = Inr vs" by blast
        with r show False by simp
      qed
    next
      assume "ifd_style dev \<noteq> ''CLASSIC'' \<and> ifd_style dev \<noteq> ''SWITCH''"
      then have "get_int_vlans dev = Inl ?unsupported" by (rule other)
      then show "isl (get_int_vlans dev)" by simp
    qed
  qed
  from 1 2 3 4 show ?thesis by blast
qed

theorem get_int_vlans_unsupported_mode_witness:
  "list_all (\<lambda>r. \<not> isl (classic_vlan_of r)) (logical_interfaces example_device)
   \<and> list_all (\<lambda>m. \<not> isl (switch_vlan_of m)) (vlan_members switch_device)
   \<and> get_int_vlans example_device = Inr [4, 500, 1871]
   \<and> get_int_vlans switch_device = Inr [101, 101, 102, 102]
   \<and> ifd_style other_device = ''ROUTER''
   \<and> get_int_vlans other_device = Inl (TypeError ''Unsupported device type'')"
proof -
  have wc: "list_all (\<lambda>r. \<not> isl (classic_vlan_of r)) (logical_interfaces example_device)"
    by code_simp
  have ws: "list_all (\<lambda>m. \<not> isl (switch_vlan_of m)) (vlan_members switch_device)"
    by code_simp
  have c: "get_int_vlans example_device = Inr [4, 500, 1871]" by code_simp
  have s: "get_int_vlans switch_device = Inr [101, 101, 102, 102]" by code_simp
  have o: "ifd_style other_device = ''ROUTER''" by code_simp
  then have "ifd_style other_device \<noteq> ''CLASSIC'' \<and> ifd_style other_device \<noteq> ''SWITCH''"
    by simp
  with get_int_vlans_unsupported_mode [of other_device]
  have "get_int_vlans other_device = Inl (TypeError ''Unsupported device type'')" by blast
  with wc ws c s o show ?thesis by simp
qed

section \<open>Route targets and route distinguishers\<close>

text \<open>
  C5. \<open>get_rts\<close> and \<open>get_rds\<close> run over the children of \<open>config[-2]\<close>. An instance
  without \<open>vrf-target/community\<close> (\<open>route-distinguisher/rd-type\<close>) raises inside the
  \<open>try\<close> and is passed over, as is one whose text does not parse; the result is the
  sorted list of the values of all the other instances, so the value of every instance
  that parses is in the result.
\<close>

theorem tolerant_extraction_skips:
  assumes "getitem_neg (children (get_config dev)) 2 = Inr instances"
  shows "get_rts dev = Inr (sort (map (\<lambda>r. projr (rt_of r))
                                     (filter (\<lambda>r. \<not> isl (rt_of r)) (children instances))))
       \<and> get_rds dev = Inr (sort (map (\<lambda>r. projr (rd_of r))
                                     (filter (\<lambda>r. \<not> isl (rd_of r)) (children instances))))
       \<and> (\<forall>r \<in> set (children instances). \<forall>v. rt_of r = Inr v \<longrightarrow> v \<in> set (projr (get_rts dev)))
       \<and> (\<forall>r \<in> set (children instances). \<forall>v. rd_of r = Inr v \<longrightarrow> v \<in> set (projr (get_rds dev)))
       \<and> (\<forall>r. find_path ''vrf-target'' ''community'' r = None \<longrightarrow> rt_of r = Inl AttributeError)
       \<and> (\<forall>r. find_path ''route-distinguisher'' ''rd-type'' r = None \<longrightarrow> rd_of r = Inl AttributeError)"
proof -
  have rts: "get_rts dev = Inr (sort (map (\<lambda>r. projr (rt_of r))
                                     (filter (\<lambda>r. \<not> isl (rt_of r)) (children instances))))"
    using assms by (simp add: get_rts_def for_append_try_eq)
  have rds: "get_rds dev = Inr (sort (map (\<lambda>r. projr (rd_of r))
                                     (filter (\<lambda>r. \<not> isl (rd_of r)) (children instances))))"
    using assms by (simp add: get_rds_def for_append_try_eq)
  have inrt: "\<forall>r \<in> set (children instances). \<forall>v. rt_of r = Inr v \<longrightarrow> v \<in> set (projr (get_rts dev))"
  proof (intro ballI allI impI)
    fix r v assume r: "r \<in> set (children instances)" and v: "rt_of r = Inr v"
    then show "v \<in> set (projr (get_rts dev))"
      unfolding rts sum.sel by (rule value_in_sorted_values)
  qed
  have inrd: "\<forall>r \<in> set (children instances). \<forall>v. rd_of r = Inr v \<longrightarrow> v \<in> set (projr (get_rds dev))"
  proof (intro ballI allI impI)
    fix r v assume r: "r \<in> set (children instances)" and v: "rd_of r = Inr v"
    then show "v \<in> set (projr (get_rds dev))"
      unfolding rds sum.sel by (rule value_in_sorted_values)
  qed
  have mrt: "\<forall>r. find_path ''vrf-target'' ''community'' r = None \<longrightarrow> rt_of r = Inl AttributeError"
    by (simp add: rt_of_def text_attr_def bind_def)
  have mrd: "\<forall>r. find_path ''route-distinguisher'' ''rd-type'' r = None \<longrightarrow> rd_of r = Inl AttributeError"
    by (simp add: rd_of_def text_attr_def bind_def)
  from rts rds inrt inrd mrt mrd show ?thesis by blast
qed

theorem tolerant_extraction_skips_witness:
  "find_path ''vrf-target'' ''community'' (routing_instance ''B'' []) = None
   \<and> find_path ''route-distinguisher'' ''rd-type'' (routing_instance ''B'' []) = None
   \<and> routing_instance ''B'' [] \<in> set (children (children example_config ! 1))
   \<and> get_rts example_device = Inr [27, 38]
   \<and> get_rds example_device = Inr [27, 38]"
proof -
  let ?inst = "children example_config ! 1"
  have g: "getitem_neg (children (get_config example_device)) 2 = Inr ?inst" by code_simp
  have b1: "find_path ''vrf-target'' ''community'' (routing_instance ''B'' []) = None" by code_simp
  have b2: "find_path ''route-distinguisher'' ''rd-type'' (routing_instance ''B'' []) = None"
    by code_simp
  have b3: "routing_instance ''B'' [] \<in> set (children ?inst)" by code_simp
  have v1: "sort (map (\<lambda>r. projr (rt_of r)) (filter (\<lambda>r. \<not> isl (rt_of r)) (children ?inst))) = [27, 38]"
    by code_simp
  have v2: "sort (map (\<lambda>r. projr (rd_of r)) (filter (\<lambda>r. \<not> isl (rd_of r)) (children ?inst))) = [27, 38]"
    by code_simp
  note t = tolerant_extraction_skips [OF g]
  from t v1 have r1: "get_rts example_device = Inr [27, 38]" by simp
  from t v2 have r2: "get_rds example_device = Inr [27, 38]" by simp
  from b1 b2 b3 r1 r2 show ?thesis by simp
qed

section \<open>Distinctness and sign of the extracted identifiers\<close>

text \<open>
  C9, as stated, asks for pairwise distinct non-negative elements. The loops append the
  integer of every record and the result is only sorted: two units carrying the same
  outer VLAN tag give the tag twice, and a signed component gives a negative integer.
\<close>

theorem extraction_not_distinct_counterexample:
  "get_int_vlans shared_vlan_device = Inr [2001, 2001]
   \<and> \<not> distinct [2001, 2001 :: int]
   \<and> get_int_units negative_unit_device = Inr [- 4]"
proof -
  have a: "get_int_vlans shared_vlan_device = Inr [2001, 2001]" by code_simp
  have b: "get_int_units negative_unit_device = Inr [- 4]" by code_simp
  from a b show ?thesis by simp
qed

text \<open>
  C9, amended. \<open>get_int_units\<close>, the CLASSIC branch of \<open>get_int_vlans\<close>, \<open>get_rts\<close> and
  \<open>get_rds\<close> return the sorted list of the integers parsed from the records, one element
  for each record that contributes, neither deduplicated nor checked for sign: the result
  is pairwise distinct exactly when the parsed values of the records are, and
  non-negative exactly when they are. The SWITCH branch returns a sorted list; how often
  it holds a tag is left open here.
\<close>

theorem extraction_sorted_with_multiplicity:
  "(\<forall>us. get_int_units dev = Inr us \<longrightarrow>
       us = sort (map (\<lambda>r. projr (unit_of r)) (logical_interfaces dev))
       \<and> sorted us
       \<and> (distinct us \<longleftrightarrow> distinct (map (\<lambda>r. projr (unit_of r)) (logical_interfaces dev)))
       \<and> ((\<forall>u \<in> set us. 0 \<le> u)
            \<longleftrightarrow> (\<forall>r \<in> set (logical_interfaces dev). 0 \<le> projr (unit_of r))))
   \<and> (\<forall>vs. ifd_style dev = ''CLASSIC'' \<and> get_int_vlans dev = Inr vs \<longrightarrow>
       vs = sort (map (\<lambda>r. projr (classic_vlan_of r)) (logical_interfaces dev))
       \<and> sorted vs
       \<and> (distinct vs
            \<longleftrightarrow> distinct (map (\<lambda>r. projr (classic_vlan_of r)) (logical_interfaces dev)))
       \<and> ((\<forall>v \<in> set vs. 0 \<le> v)
            \<longleftrightarrow> (\<forall>r \<in> set (logical_interfaces dev). 0 \<le> projr (classic_vlan_of r))))
   \<and> (\<forall>vs. ifd_style dev = ''SWITCH'' \<and> get_int_vlans dev = Inr vs \<longrightarrow> sorted vs)
   \<and> (\<forall>ts instances. getitem_neg (children (get_config dev)) 2 = Inr instances
                        \<and> get_rts dev = Inr ts \<longrightarrow>
       ts = sort (map (\<lambda>r. projr (rt_of r))
                      (filter (\<lambda>r. \<not> isl (rt_of r)) (children instances)))
       \<and> sorted ts
       \<and> (distinct ts \<longleftrightarrow> distinct (map (\<lambda>r. projr (rt_of r))
                                     (filter (\<lambda>r. \<not> isl (rt_of r)) (children instances)))))
   \<and> (\<forall>ds instances. getitem_neg (children (get_config dev)) 2 = Inr instances
                        \<and> get_rds dev = Inr ds \<longrightarrow>
       ds = sort (map (\<lambda>r. projr (rd_of r))
                      (filter (\<lambda>r. \<not> isl (rd_of r)) (children instances)))
       \<and> sorted ds
       \<and> (distinct ds \<longleftrightarrow> distinct (map (\<lambda>r. projr (rd_of r))
                                     (filter (\<lambda>r. \<not> isl (rd_of r)) (children instances)))))"
proof -
  have units: "\<forall>us. get_int_units dev = Inr us \<longrightarrow>
       us = sort (map (\<lambda>r. projr (unit_of r)) (logical_interfaces dev))
       \<and> sorted us
       \<and> (distinct us \<longleftrightarrow> distinct (map (\<lambda>r. projr (unit_of r)) (logical_interfaces dev)))
       \<and> ((\<forall>u \<in> set us. 0 \<le> u)
            \<longleftrightarrow> (\<forall>r \<in> set (logical_interfaces dev). 0 \<le> projr (unit_of r)))"
  proof (intro allI impI)
    fix us assume "get_int_units dev = Inr us"
    then obtain acc where "for_append unit_of (logical_interfaces dev) [] = Inr acc"
      and us: "us = sort acc"
      by (auto simp: get_int_units_def split: sum.splits)
    from for_append_InrD [OF this(1)]
    have "acc = map (\<lambda>r. projr (unit_of r)) (logical_interfaces dev)" by simp
    with us have "us = sort (map (\<lambda>r. projr (unit_of r)) (logical_interfaces dev))" by simp
    then show "us = sort (map (\<lambda>r. projr (unit_of r)) (logical_interfaces dev))
       \<and> sorted us
       \<and> (distinct us \<longleftrightarrow> distinct (map (\<lambda>r. projr (unit_of r)) (logical_interfaces dev)))
       \<and> ((\<forall>u \<in> set us. 0 \<le> u)
            \<longleftrightarrow> (\<forall>r \<in> set (logical_interfaces dev). 0 \<le> projr (unit_of r)))"
      by simp
  qed
  have classic: "\<forall>vs. ifd_style dev = ''CLASSIC'' \<and> get_int_vlans dev = Inr vs \<longrightarrow>
       vs = sort (map (\<lambda>r. projr (classic_vlan_of r)) (logical_interfaces dev))
       \<and> sorted vs
       \<and> (distinct vs
            \<longleftrightarrow> distinct (map (\<lambda>r. projr (classic_vlan_of r)) (logical_interfaces dev)))
       \<and> ((\<forall>v \<in> set vs. 0 \<le> v)
            \<longleftrightarrow> (\<forall>r \<in> set (logical_interfaces dev). 0 \<le> projr (classic_vlan_of r)))"
  proof (intro allI impI)
    fix vs assume "ifd_style dev = ''CLASSIC'' \<and> get_int_vlans dev = Inr vs"
    then obtain acc where "for_append classic_vlan_of (logical_interfaces dev) [] = Inr acc"
      and vs: "vs = sort acc"
      by (auto simp: get_int_vlans_def split: sum.splits)
    from for_append_InrD [OF this(1)]
    have "acc = map (\<lambda>r. projr (classic_vlan_of r)) (logical_interfaces dev)" by simp
    with vs have "vs = sort (map (\<lambda>r. projr (classic_vlan_of r)) (logical_interfaces dev))"
      by simp
    then show "vs = sort (map (\<lambda>r. projr (classic_vlan_of r)) (logical_interfaces dev))
       \<and> sorted vs
       \<and> (distinct vs
            \<longleftrightarrow> distinct (map (\<lambda>r. projr (classic_vlan_of r)) (logical_interfaces dev)))
       \<and> ((\<forall>v \<in> set vs. 0 \<le> v)
            \<longleftrightarrow> (\<forall>r \<in> set (logical_interfaces dev). 0 \<le> projr (classic_vlan_of r)))"
      by simp
  qed
  have switch: "\<forall>vs. ifd_style dev = ''SWITCH'' \<and> get_int_vlans dev = Inr vs \<longrightarrow> sorted vs"
    by (auto simp: get_int_vlans_def Let_def split: sum.splits)
  have rts: "\<forall>ts instances. getitem_neg (children (get_config dev)) 2 = Inr instances
                        \<and> get_rts dev = Inr ts \<longrightarrow>
       ts = sort (map (\<lambda>r. projr (rt_of r))
                      (filter (\<lambda>r. \<not> isl (rt_of r)) (children instances)))
       \<and> sorted ts
       \<and> (distinct ts \<longleftrightarrow> distinct (map (\<lambda>r. projr (rt_of r))
                                     (filter (\<lambda>r. \<not> isl (rt_of r)) (children instances))))"
    by (auto simp: get_rts_def for_append_try_eq)
  have rds: "\<forall>ds instances. getitem_neg (children (get_config dev)) 2 = Inr instances
                        \<and> get_rds dev = Inr ds \<longrightarrow>
       ds = sort (map (\<lambda>r. projr (rd_of r))
                      (filter (\<lambda>r. \<not> isl (rd_of r)) (children instances)))
       \<and> sorted ds
       \<and> (distinct ds \<longleftrightarrow> distinct (map (\<lambda>r. projr (rd_of r))
                                     (filter (\<lambda>r. \<not> isl (rd_of r)) (children instances))))"
    by (auto simp: get_rds_def for_append_try_eq)
  from units classic switch rts rds show ?thesis by (intro conjI)
qed

theorem extraction_sorted_with_multiplicity_witness:
  "get_int_units example_device = Inr [4, 2001, 2002]
   \<and> distinct (map (\<lambda>r. projr (unit_of r)) (logical_interfaces example_device))
   \<and> get_int_vlans shared_vlan_device = Inr [2001, 2001]
   \<and> \<not> distinct (map (\<lambda>r. projr (classic_vlan_of r)) (logical_interfaces shared_vlan_device))"
proof -
  note t = extraction_sorted_with_multiplicity
  have u: "get_int_units example_device = Inr [4, 2001, 2002]" by code_simp
  with t [of example_device]
  have "distinct [4, 2001, 2002 :: int] \<longleftrightarrow>
          distinct (map (\<lambda>r. projr (unit_of r)) (logical_interfaces example_device))"
    by blast
  then have du: "distinct (map (\<lambda>r. projr (unit_of r)) (logical_interfaces example_device))"
    by simp
  have s: "ifd_style shared_vlan_device = ''CLASSIC''" by code_simp
  have v: "get_int_vlans shared_vlan_device = Inr [2001, 2001]" by code_simp
  with s t [of shared_vlan_device]
  have "distinct [2001, 2001 :: int] \<longleftrightarrow>
          distinct (map (\<lambda>r. projr (classic_vlan_of r)) (logical_interfaces shared_vlan_device))"
    by blast
  then have dv: "\<not> distinct (map (\<lambda>r. projr (classic_vlan_of r))
                        (logical_interfaces shared_vlan_device))"
    by simp
  from u du v dv show ?thesis by simp
qed

section \<open>Lookup of the unit of a VLAN\<close>

text \<open>
  C7 asks for an explicit not-found result that is neither an exception nor an unbound
  value. On a reply in which every record normalises to a VLAN text other than the key
  (and the loopback address is read), \<open>find_unit_for_vlan_lo\<close> reaches its \<open>return\<close>
  with \<open>unit\<close> never assigned and raises \<open>UnboundLocalError\<close>; \<open>find_unit_for_vlan\<close>
  ends without a \<open>return\<close> and yields \<open>None\<close>.
\<close>

theorem find_unit_for_vlan_lo_miss_unbound:
  assumes "\<forall>r \<in> set (logical_interfaces dev). \<exists>v. vlan_text r = Inr v \<and> v \<noteq> vlan"
      and "loopbackip dev = Inr ip"
  shows "find_unit_for_vlan_lo dev vlan = Inl UnboundLocalError
         \<and> find_unit_for_vlan dev vlan = Inr None"
  using assms
  by (simp add: find_unit_for_vlan_lo_def find_unit_for_vlan_def bind_def
                find_lo_loop_no_match find_loop_no_match)

theorem find_unit_for_vlan_lo_miss_unbound_witness:
  "list_all (\<lambda>r. vlan_text r \<in> {Inr ''4'', Inr ''1871'', Inr ''500''}) (logical_interfaces example_device)
   \<and> loopbackip example_device = Inr (Some ''10.1.1.1'')
   \<and> find_unit_for_vlan_lo example_device ''9999'' = Inl UnboundLocalError
   \<and> find_unit_for_vlan example_device ''9999'' = Inr None"
proof -
  have v: "list_all (\<lambda>r. vlan_text r \<in> {Inr ''4'', Inr ''1871'', Inr ''500''})
             (logical_interfaces example_device)"
    by code_simp
  then have m: "\<forall>r \<in> set (logical_interfaces example_device).
                  \<exists>v. vlan_text r = Inr v \<and> v \<noteq> ''9999''"
    unfolding list_all_iff by auto
  have l: "loopbackip example_device = Inr (Some ''10.1.1.1'')" by code_simp
  from find_unit_for_vlan_lo_miss_unbound [OF m l] v l show ?thesis by simp
qed

text \<open>
  C8 asks both lookups for the unit of the first matching record. With VLAN 2001 on the
  units 2003 and 2004, in this order, \<open>find_unit_for_vlan\<close> returns \<open>2003\<close>, the unit of
  the first match (see \<open>find_loop_first_match\<close>), while \<open>find_unit_for_vlan_lo\<close>, which
  does not leave its loop at a match, returns \<open>2004\<close>, the unit of the last one (see
  \<open>find_lo_loop_last_match\<close>).
\<close>

theorem find_unit_for_vlan_lo_returns_last_match:
  "find_unit_for_vlan shared_vlan_device ''2001'' = Inr (Some ''2003'')
   \<and> find_unit_for_vlan_lo shared_vlan_device ''2001'' = Inr (''2004'', Some ''10.1.1.1'')"
  by code_simp

end
